theory Spec2Isabelle
  imports Complex_Main "HOL-Library.Sublist" "HOL-Library.AList" "HOL-Library.Multiset"
begin

section \<open>Values of the JavaScript program\<close>

text \<open>
  The program throws \<open>new Error(message)\<close> everywhere; the two other constructors are the
  errors the engine itself throws in the modelled code: reading a property of \<open>null\<close>
  (\<open>TypeError\<close>) and \<open>JSON.parse\<close> on text that is not JSON (\<open>SyntaxError\<close>).
\<close>

datatype js_error = Error string | TypeError | SyntaxError

text \<open>
  A string flag or field that may be absent (\<open>undefined\<close>) is a \<open>string option\<close>.
  \<open>truthy_str\<close> is JavaScript's truthiness on such a value (\<open>undefined\<close> and the empty
  string are falsy), \<open>str_or_empty\<close> is the idiom \<open>(x || '')\<close>.
\<close>

fun truthy_str :: "string option \<Rightarrow> bool" where
  "truthy_str None = False"
| "truthy_str (Some s) = (s \<noteq> [])"

fun str_or_empty :: "string option \<Rightarrow> string" where
  "str_or_empty None = []"
| "str_or_empty (Some s) = s"

text \<open>\<open>s.includes(part)\<close>: \<open>part\<close> occurs in \<open>s\<close> as a contiguous run of characters.\<close>

fun str_includes :: "string \<Rightarrow> string \<Rightarrow> bool" where
  "str_includes [] part = (part = [])"
| "str_includes (c # cs) part = (prefix part (c # cs) \<or> str_includes cs part)"

section \<open>Target selection: \<open>pickTarget\<close>\<close>

text \<open>
  An entry of the discovery reply, with the fields the program reads. Each may be missing
  from the JSON object, hence the options.
\<close>

record target =
  tid :: "string option"
  ttype :: "string option"
  url :: "string option"
  title :: "string option"
  webSocketDebuggerUrl :: "string option"

text \<open>The selection flags of \<open>parseArgs\<close> that \<open>pickTarget\<close> reads.\<close>

record flags =
  target :: "string option"
  urlContains :: "string option"
  titleContains :: "string option"

definition pickTarget :: "target list \<Rightarrow> flags \<Rightarrow> js_error + target" where
  "pickTarget targets fl =
     (if length targets = 0 then Inl (Error ''No page targets found'')
      else if truthy_str (target fl) then
        (case find (\<lambda>t. tid t = target fl) targets of
           None \<Rightarrow> Inl (Error (''Target id not found: '' @ str_or_empty (target fl)))
         | Some exact \<Rightarrow> Inr exact)
      else
        (let filtered = targets;
             filtered = (if truthy_str (urlContains fl)
                         then filter (\<lambda>t. str_includes (str_or_empty (url t))
                                                   (str_or_empty (urlContains fl))) filtered
                         else filtered);
             filtered = (if truthy_str (titleContains fl)
                         then filter (\<lambda>t. str_includes (str_or_empty (title t))
                                                   (str_or_empty (titleContains fl))) filtered
                         else filtered)
         in if length filtered = 0
            then Inl (Error ''No targets matched the provided filters'')
            else Inr (filtered ! 0)))"

text \<open>
  The selection policy in the words of the specification: a target survives when its url
  contains \<open>urlContains\<close> (if that is given) and its title contains \<open>titleContains\<close> (if that
  is given); a missing url or title counts as the empty string.
\<close>

definition spec_survives :: "flags \<Rightarrow> target \<Rightarrow> bool" where
  "spec_survives fl t \<longleftrightarrow>
     (case urlContains fl of None \<Rightarrow> True | Some u \<Rightarrow> sublist u (str_or_empty (url t))) \<and>
     (case titleContains fl of None \<Rightarrow> True | Some v \<Rightarrow> sublist v (str_or_empty (title t)))"

section \<open>JSON values\<close>

text \<open>
  What \<open>JSON.parse\<close> returns. A number is the (finite) value of the double it produced;
  an object is its property table, looked up from the front. \<open>get_prop v k\<close> is the read \<open>v.k\<close> on a
  value other than \<open>null\<close>, for the names the client reads (\<open>id\<close>, \<open>error\<close>, \<open>result\<close>,
  \<open>method\<close>, \<open>params\<close>, \<open>message\<close>): an object's own property, and \<open>undefined\<close>
  (\<open>None\<close>) on a number, string, boolean or array, which inherit none of these names.
\<close>

datatype json =
    JNull
  | JBool bool
  | JNum rat
  | JStr string
  | JArr "json list"
  | JObj "(string \<times> json) list"

fun get_prop :: "json \<Rightarrow> string \<Rightarrow> json option" where
  "get_prop (JObj kvs) k = map_of kvs k"
| "get_prop _ k = None"

text \<open>Truthiness of a value that may be \<open>undefined\<close>.\<close>

fun truthy :: "json option \<Rightarrow> bool" where
  "truthy None = False"
| "truthy (Some JNull) = False"
| "truthy (Some (JBool b)) = b"
| "truthy (Some (JNum q)) = (q \<noteq> 0)"
| "truthy (Some (JStr s)) = (s \<noteq> [])"
| "truthy (Some (JArr _)) = True"
| "truthy (Some (JObj _)) = True"

text \<open>The idiom \<open>(x || {})\<close>.\<close>

fun or_empty_object :: "json option \<Rightarrow> json" where
  "or_empty_object None = JObj []"
| "or_empty_object (Some v) = (if truthy (Some v) then v else JObj [])"

text \<open>
  Two built-ins of the language are parameters of the model: \<open>JSON.stringify\<close> and the
  conversion to string that \<open>new Error(x)\<close> applies to an \<open>x\<close> that is not a string.
\<close>

record builtins =
  stringify :: "json \<Rightarrow> string"
  toString :: "json \<Rightarrow> string"

section \<open>The protocol client: \<open>CDPClient\<close>\<close>

text \<open>
  A promise is a cell that is settled at most once: \<open>resolve\<close> and \<open>reject\<close> on a settled
  promise do nothing. Promises live in a store and are named by their index in it.
\<close>

datatype promise = Unsettled | Fulfilled json | Rejected js_error

text \<open>
  The fields of the class, followed by the runtime objects its methods act on:
  \<^item> \<open>ws\<close> is \<open>None\<close> for \<open>null\<close>, otherwise the socket's \<open>readyState\<close>
    (0 connecting, 1 open, 2 closing, 3 closed);
  \<^item> \<open>this_id\<close> is the field \<open>this.id\<close>;
  \<^item> \<open>pending\<close> and \<open>eventHandlers\<close> are the two \<open>Map\<close>s, as association lists in
    insertion order; an entry of \<open>pending\<close> holds the promise whose \<open>resolve\<close> and
    \<open>reject\<close> it carries;
  \<^item> \<open>promises\<close> is the promise store, \<open>wire\<close> the payloads handed to the socket's
    \<open>send\<close>, \<open>invoked\<close> the calls \<open>h(params)\<close> made to event handlers, in order.
  Event handlers are caller code; the model names them by a value of type \<open>'h\<close> and
  records their invocations.
\<close>

record 'h client =
  wsUrl :: "string option"
  ws :: "nat option"
  this_id :: nat
  pending :: "(nat \<times> nat) list"
  eventHandlers :: "(string \<times> 'h list) list"
  promises :: "promise list"
  wire :: "json list"
  invoked :: "('h \<times> json) list"

text \<open>The constructor; it is given the promise store of the running program.\<close>

definition new_client :: "string option \<Rightarrow> promise list \<Rightarrow> 'h client" where
  "new_client u store =
     \<lparr>wsUrl = u, ws = None, this_id = 0, pending = [], eventHandlers = [],
      promises = store, wire = [], invoked = []\<rparr>"

definition settle :: "'h client \<Rightarrow> nat \<Rightarrow> promise \<Rightarrow> 'h client" where
  "settle s p outcome =
     (if p < length (promises s) \<and> promises s ! p = Unsettled
      then s\<lparr>promises := (promises s)[p := outcome]\<rparr>
      else s)"

definition resolve :: "'h client \<Rightarrow> nat \<Rightarrow> json \<Rightarrow> 'h client" where
  "resolve s p v = settle s p (Fulfilled v)"

definition reject :: "'h client \<Rightarrow> nat \<Rightarrow> js_error \<Rightarrow> 'h client" where
  "reject s p e = settle s p (Rejected e)"

text \<open>
  \<open>++n\<close> on the number \<open>n\<close>. The field starts at 0 and only this operation changes it, so
  it holds integers from 0 up to \<open>2 ^ 53\<close>; there the double \<open>n + 1\<close> rounds back to \<open>n\<close>.
\<close>

definition pre_increment :: "nat \<Rightarrow> nat" where
  "pre_increment n = (if n < 2 ^ 53 then n + 1 else n)"

text \<open>
  \<open>send(method, params = {})\<close> returns the new promise and the state. The executor stores
  the entry and then calls \<open>this.ws.send(JSON.stringify(payload), callback)\<close>: with \<open>ws\<close>
  \<open>null\<close> that throws a \<open>TypeError\<close>, and an exception that the call throws otherwise
  (the socket's \<open>send\<close> may throw) is the argument \<open>thrown\<close>; either rejects the promise
  and leaves the entry in place.
\<close>

definition send ::
  "'h client \<Rightarrow> string \<Rightarrow> json option \<Rightarrow> js_error option \<Rightarrow> nat \<times> 'h client" where
  "send s method params thrown =
     (let i = pre_increment (this_id s);
          s = s\<lparr>this_id := i\<rparr>;
          payload = JObj [(''id'', JNum (of_nat i)), (''method'', JStr method),
                          (''params'', (case params of None \<Rightarrow> JObj [] | Some v \<Rightarrow> v))];
          p = length (promises s);
          s = s\<lparr>promises := promises s @ [Unsettled]\<rparr>;
          s = s\<lparr>pending := AList.update i p (pending s)\<rparr>
      in case ws s of
           None \<Rightarrow> (p, reject s p TypeError)
         | Some _ \<Rightarrow>
             (case thrown of
                Some e \<Rightarrow> (p, reject s p e)
              | None \<Rightarrow> (p, s\<lparr>wire := wire s @ [payload]\<rparr>)))"

text \<open>
  The callback \<open>(err) => { ... }\<close> that \<open>send\<close> passes to the socket, for the call with
  id \<open>i\<close> and promise \<open>p\<close>; \<open>err\<close> is \<open>None\<close> when the write succeeded.
\<close>

definition send_callback ::
  "'h client \<Rightarrow> nat \<Rightarrow> nat \<Rightarrow> js_error option \<Rightarrow> 'h client" where
  "send_callback s i p err =
     (case err of
        None \<Rightarrow> s
      | Some e \<Rightarrow> reject (s\<lparr>pending := AList.delete i (pending s)\<rparr>) p e)"

text \<open>
  \<open>this.pending.get(key)\<close> for a key read from a frame: the keys of the map are the
  numbers \<open>send\<close> stored, so only a number of the same value finds an entry.
\<close>

fun pending_key :: "json option \<Rightarrow> nat option" where
  "pending_key (Some (JNum q)) =
     (if 0 \<le> q \<and> q = of_int \<lfloor>q\<rfloor> then Some (nat \<lfloor>q\<rfloor>) else None)"
| "pending_key _ = None"

definition pending_get :: "(nat \<times> nat) list \<Rightarrow> json option \<Rightarrow> nat option" where
  "pending_get m key = (case pending_key key of None \<Rightarrow> None | Some k \<Rightarrow> map_of m k)"

definition pending_delete :: "(nat \<times> nat) list \<Rightarrow> json option \<Rightarrow> (nat \<times> nat) list" where
  "pending_delete m key = (case pending_key key of None \<Rightarrow> m | Some k \<Rightarrow> AList.delete k m)"

text \<open>\<open>this.eventHandlers.get(key)\<close>: the keys are the strings given to \<open>on\<close>.\<close>

fun handlers_get :: "(string \<times> 'h list) list \<Rightarrow> json option \<Rightarrow> 'h list option" where
  "handlers_get m (Some (JStr name)) = map_of m name"
| "handlers_get m _ = None"

text \<open>\<open>msg.error.message || JSON.stringify(msg.error)\<close>, as \<open>new Error\<close> stores it.\<close>

definition error_message :: "builtins \<Rightarrow> json \<Rightarrow> string" where
  "error_message B err =
     (if truthy (get_prop err ''message'')
      then (case get_prop err ''message'' of
              Some (JStr m) \<Rightarrow> m
            | Some v \<Rightarrow> toString B v
            | None \<Rightarrow> [])
      else stringify B err)"

definition invoke :: "'h client \<Rightarrow> 'h \<Rightarrow> json \<Rightarrow> 'h client" where
  "invoke s h params = s\<lparr>invoked := invoked s @ [(h, params)]\<rparr>"

text \<open>
  The \<open>message\<close> listener. Its argument is the result of \<open>JSON.parse(String(raw))\<close>,
  \<open>None\<close> when that throws. Reading \<open>msg.id\<close> of \<open>null\<close> throws.
\<close>

definition on_message :: "builtins \<Rightarrow> 'h client \<Rightarrow> json option \<Rightarrow> js_error + 'h client" where
  "on_message B s parsed =
     (case parsed of
        None \<Rightarrow> Inl SyntaxError
      | Some JNull \<Rightarrow> Inl TypeError
      | Some msg \<Rightarrow>
          if truthy (get_prop msg ''id'') then
            (case pending_get (pending s) (get_prop msg ''id'') of
               None \<Rightarrow> Inr s
             | Some cb \<Rightarrow>
                 let s = s\<lparr>pending := pending_delete (pending s) (get_prop msg ''id'')\<rparr>
                 in (case get_prop msg ''error'' of
                       Some err \<Rightarrow>
                         if truthy (Some err)
                         then Inr (reject s cb (Error (error_message B err)))
                         else Inr (resolve s cb (or_empty_object (get_prop msg ''result'')))
                     | None \<Rightarrow>
                         Inr (resolve s cb (or_empty_object (get_prop msg ''result'')))))
          else if truthy (get_prop msg ''method'') then
            (case handlers_get (eventHandlers s) (get_prop msg ''method'') of
               None \<Rightarrow> Inr s
             | Some handlers \<Rightarrow>
                 Inr (fold (\<lambda>h s. invoke s h (or_empty_object (get_prop msg ''params'')))
                        handlers s))
          else Inr s)"

text \<open>The \<open>close\<close> listener.\<close>

definition on_close :: "'h client \<Rightarrow> 'h client" where
  "on_close s =
     (fold (\<lambda>(_, cb) s. reject s cb (Error ''WebSocket closed'')) (pending s) s)
       \<lparr>pending := []\<rparr>"

text \<open>\<open>on(method, handler)\<close>.\<close>

definition on_method :: "'h client \<Rightarrow> string \<Rightarrow> 'h \<Rightarrow> 'h client" where
  "on_method s method handler =
     (let list = (case map_of (eventHandlers s) method of None \<Rightarrow> [] | Some l \<Rightarrow> l);
          list = list @ [handler]
      in s\<lparr>eventHandlers := AList.update method list (eventHandlers s)\<rparr>)"

text \<open>\<open>close()\<close>; the socket's own \<open>close\<close> moves an open socket to closing.\<close>

definition close :: "'h client \<Rightarrow> 'h client" where
  "close s = (if ws s = Some 1 then s\<lparr>ws := Some 2\<rparr> else s)"

section \<open>Runs of a client\<close>

text \<open>
  What can happen to a client, one step at a time: a method call by the program
  (\<open>Connect\<close>, \<open>Send\<close>, \<open>On\<close>, \<open>Close\<close>) or a callback from the socket
  (\<open>SocketOpen\<close>, \<open>Message\<close>, \<open>SocketClosed\<close>, and \<open>SendCallback\<close> for the callback of an
  earlier \<open>send\<close>). \<open>connect\<close> stores a new, connecting socket in \<open>this.ws\<close>; the socket
  is open when it emits \<open>open\<close> and closed when it emits \<open>close\<close>. An exception that
  leaves a listener ends the run.
\<close>

datatype 'h event =
    Connect
  | SocketOpen
  | Send string "json option" "js_error option"
  | SendCallback nat nat "js_error option"
  | Message "json option"
  | SocketClosed
  | On string 'h
  | Close

fun step :: "builtins \<Rightarrow> 'h client \<Rightarrow> 'h event \<Rightarrow> js_error + 'h client" where
  "step B s Connect = Inr (s\<lparr>ws := Some 0\<rparr>)"
| "step B s SocketOpen = Inr (s\<lparr>ws := Some 1\<rparr>)"
| "step B s (Send method params thrown) = Inr (snd (send s method params thrown))"
| "step B s (SendCallback i p err) = Inr (send_callback s i p err)"
| "step B s (Message parsed) = on_message B s parsed"
| "step B s SocketClosed = Inr (on_close (s\<lparr>ws := Some 3\<rparr>))"
| "step B s (On method handler) = Inr (on_method s method handler)"
| "step B s Close = Inr (close s)"

fun run :: "builtins \<Rightarrow> 'h client \<Rightarrow> 'h event list \<Rightarrow> js_error + 'h client" where
  "run B s [] = Inr s"
| "run B s (e # es) = (case step B s e of Inl err \<Rightarrow> Inl err | Inr s' \<Rightarrow> run B s' es)"


text \<open>
  The id that a call to \<open>send\<close> uses, read where the call puts it: \<open>call_keys\<close> are the
  keys under which the pending map holds the promise that the call returns, and
  \<open>call_payload_ids\<close> are the \<open>id\<close> fields of the payloads that the call hands to the
  socket. \<open>allocated_ids\<close> collects the keys of the calls to \<open>send\<close> in a run, in the
  order of the calls.
\<close>

definition call_keys ::
  "'h client \<Rightarrow> string \<Rightarrow> json option \<Rightarrow> js_error option \<Rightarrow> nat list" where
  "call_keys s method params thrown =
     map fst (filter (\<lambda>kp. snd kp = fst (send s method params thrown))
                (pending (snd (send s method params thrown))))"

definition call_payload_ids ::
  "'h client \<Rightarrow> string \<Rightarrow> json option \<Rightarrow> js_error option \<Rightarrow> json option list" where
  "call_payload_ids s method params thrown =
     map (\<lambda>f. get_prop f ''id'')
       (drop (length (wire s)) (wire (snd (send s method params thrown))))"

fun is_send :: "'h event \<Rightarrow> bool" where
  "is_send (Send method params thrown) = True"
| "is_send _ = False"

fun allocated_ids :: "builtins \<Rightarrow> 'h client \<Rightarrow> 'h event list \<Rightarrow> nat list" where
  "allocated_ids B s [] = []"
| "allocated_ids B s (e # es) =
     (case step B s e of
        Inl err \<Rightarrow> []
      | Inr s' \<Rightarrow>
          (case e of
             Send method params thrown \<Rightarrow> call_keys s method params thrown
           | _ \<Rightarrow> []) @ allocated_ids B s' es)"

text \<open>
  What every run keeps true of the pending map: its keys are distinct and at most the
  counter, its promises are distinct and in the store, and the counter is at most \<open>2 ^ 53\<close>.
\<close>

definition well_formed :: "'h client \<Rightarrow> bool" where
  "well_formed s \<longleftrightarrow>
     distinct (map fst (pending s)) \<and> distinct (map snd (pending s)) \<and>
     (\<forall>(k, p)\<in>set (pending s). k \<le> this_id s \<and> p < length (promises s)) \<and>
     this_id s \<le> 2 ^ 53"

section \<open>The session: \<open>withClient\<close>\<close>

text \<open>
  An \<open>await\<close> ends with a value, ends with an exception, or never ends. The function is
  modelled over the outcomes of its awaits, which the network and the caller's \<open>fn\<close>
  decide, and returns its own outcome with the calls it made on the client, in order.
\<close>

datatype 'a awaited = Returned 'a | Threw js_error | Never

record session_env =
  listed :: "target list awaited"
  connected :: "unit awaited"
  enabled :: "string \<Rightarrow> json awaited"
  body :: "unit awaited"

datatype call =
    NewClient "string option"
  | CallConnect
  | CallSend string
  | CallBody
  | CallClose

type_synonym progress = "unit awaited \<times> call list"

definition await_then :: "'a awaited \<Rightarrow> ('a \<Rightarrow> progress) \<Rightarrow> progress" where
  "await_then r k =
     (case r of Returned v \<Rightarrow> k v | Threw e \<Rightarrow> (Threw e, []) | Never \<Rightarrow> (Never, []))"

definition after :: "call \<Rightarrow> progress \<Rightarrow> progress" where
  "after c r = (fst r, c # snd r)"

text \<open>\<open>try { block } finally { c }\<close>: \<open>c\<close> runs when the block has ended.\<close>

definition try_finally :: "progress \<Rightarrow> call \<Rightarrow> progress" where
  "try_finally r c = (case fst r of Never \<Rightarrow> r | _ \<Rightarrow> (fst r, snd r @ [c]))"

definition try_block :: "session_env \<Rightarrow> progress" where
  "try_block E =
     after (CallSend ''Page.enable'') (await_then (enabled E ''Page.enable'') (\<lambda>_.
     after (CallSend ''Runtime.enable'') (await_then (enabled E ''Runtime.enable'') (\<lambda>_.
     after (CallSend ''Log.enable'') (await_then (enabled E ''Log.enable'') (\<lambda>_.
     after CallBody (await_then (body E) (\<lambda>_. (Returned (), [])))))))))"

definition withClient :: "session_env \<Rightarrow> flags \<Rightarrow> progress" where
  "withClient E fl =
     await_then (listed E) (\<lambda>targets.
       case pickTarget targets fl of
         Inl e \<Rightarrow> (Threw e, [])
       | Inr picked \<Rightarrow>
           after (NewClient (webSocketDebuggerUrl picked))
             (after CallConnect (await_then (connected E) (\<lambda>_.
                try_finally (try_block E) CallClose))))"

section \<open>Properties of target selection\<close>

lemma str_includes_sublist: "str_includes s part \<longleftrightarrow> sublist part s"
  by (induction s) (auto simp: sublist_Cons_right)

lemma filter_first_index:
  "filter P xs = y # ys \<Longrightarrow> \<exists>i<length xs. xs ! i = y \<and> P y \<and> (\<forall>j<i. \<not> P (xs ! j))"
proof (induction xs)
  case Nil
  then show ?case by simp
next
  case (Cons x xs)
  show ?case
  proof (cases "P x")
    case True
    with Cons.prems have "x = y" by simp
    with True show ?thesis by (intro exI[of _ 0]) simp
  next
    case False
    with Cons.prems have "filter P xs = y # ys" by simp
    from Cons.IH[OF this] obtain i where
      i: "i < length xs" "xs ! i = y" "P y" "\<forall>j<i. \<not> P (xs ! j)" by blast
    have "\<forall>j<Suc i. \<not> P ((x # xs) ! j)"
      using False i(4) by (auto simp: less_Suc_eq_0_disj)
    with i show ?thesis by (intro exI[of _ "Suc i"]) simp
  qed
qed

lemma falsy_str_sublist: "\<not> truthy_str x \<Longrightarrow> sublist (str_or_empty x) s"
  by (cases x) auto

lemma survivors_eq:
  "filter (spec_survives fl) targets =
     filter (\<lambda>t. sublist (str_or_empty (titleContains fl)) (str_or_empty (title t)))
       (filter (\<lambda>t. sublist (str_or_empty (urlContains fl)) (str_or_empty (url t))) targets)"
  by (cases "urlContains fl"; cases "titleContains fl")
     (auto simp: spec_survives_def intro: filter_cong)

lemma url_filter_eq:
  "(if truthy_str (urlContains fl)
    then filter (\<lambda>t. str_includes (str_or_empty (url t)) (str_or_empty (urlContains fl))) xs
    else xs) =
   filter (\<lambda>t. sublist (str_or_empty (urlContains fl)) (str_or_empty (url t))) xs"
  by (simp add: str_includes_sublist falsy_str_sublist)

lemma title_filter_eq:
  "(if truthy_str (titleContains fl)
    then filter (\<lambda>t. str_includes (str_or_empty (title t)) (str_or_empty (titleContains fl))) xs
    else xs) =
   filter (\<lambda>t. sublist (str_or_empty (titleContains fl)) (str_or_empty (title t))) xs"
  by (simp add: str_includes_sublist falsy_str_sublist)

lemma pickTarget_filter_branch:
  assumes "targets \<noteq> []" and "\<not> truthy_str (target fl)"
  shows "pickTarget targets fl =
           (case filter (spec_survives fl) targets of
              [] \<Rightarrow> Inl (Error ''No targets matched the provided filters'')
            | t # _ \<Rightarrow> Inr t)"
proof -
  have "pickTarget targets fl =
          (if length (filter (spec_survives fl) targets) = 0
           then Inl (Error ''No targets matched the provided filters'')
           else Inr (filter (spec_survives fl) targets ! 0))"
    unfolding pickTarget_def Let_def url_filter_eq title_filter_eq survivors_eq
    using assms by simp
  then show ?thesis
    by (simp split: list.splits)
qed

text \<open>
  Claim C6. On a non-empty target list and flags without a target id, \<open>pickTarget\<close> keeps
  the targets whose url contains \<open>urlContains\<close> and whose title contains \<open>titleContains\<close>
  (each filter only when given, both together when both are given; the match is the exact
  run of characters, so it distinguishes upper and lower case) and returns the survivor
  with the least index in the list as it was discovered. It fails, with the message for
  no match, exactly when no target survives. Being a function of the list and the flags,
  it returns the same target for the same inputs.
\<close>

theorem pickTarget_first_survivor:
  assumes "targets \<noteq> []" and "\<not> truthy_str (target fl)"
  shows "case pickTarget targets fl of
           Inr t \<Rightarrow> \<exists>i<length targets. targets ! i = t \<and> spec_survives fl t \<and>
                      (\<forall>j<i. \<not> spec_survives fl (targets ! j))
         | Inl e \<Rightarrow> e = Error ''No targets matched the provided filters'' \<and>
                      (\<forall>t\<in>set targets. \<not> spec_survives fl t)"
proof (cases "filter (spec_survives fl) targets")
  case Nil
  then have "\<forall>t\<in>set targets. \<not> spec_survives fl t"
    by (simp add: filter_empty_conv)
  with Nil show ?thesis
    by (simp add: pickTarget_filter_branch[OF assms])
next
  case (Cons t ts)
  from filter_first_index[OF this] Cons show ?thesis
    by (simp add: pickTarget_filter_branch[OF assms])
qed

text \<open>Scenario A of the specification: the url filter \<open>y\<close> selects target \<open>B\<close>.\<close>

theorem pickTarget_first_survivor_witness:
  "[\<lparr>tid = Some ''A'', ttype = Some ''page'', url = Some ''http://x'', title = Some ''Foo'',
      webSocketDebuggerUrl = Some ''ws://a''\<rparr>,
    \<lparr>tid = Some ''B'', ttype = Some ''page'', url = Some ''http://y'', title = Some ''Bar'',
      webSocketDebuggerUrl = Some ''ws://b''\<rparr>] \<noteq> [] \<and>
   \<not> truthy_str (target \<lparr>target = None, urlContains = Some ''y'', titleContains = None\<rparr>) \<and>
   pickTarget
     [\<lparr>tid = Some ''A'', ttype = Some ''page'', url = Some ''http://x'', title = Some ''Foo'',
        webSocketDebuggerUrl = Some ''ws://a''\<rparr>,
      \<lparr>tid = Some ''B'', ttype = Some ''page'', url = Some ''http://y'', title = Some ''Bar'',
        webSocketDebuggerUrl = Some ''ws://b''\<rparr>]
     \<lparr>target = None, urlContains = Some ''y'', titleContains = None\<rparr> =
   Inr \<lparr>tid = Some ''B'', ttype = Some ''page'', url = Some ''http://y'', title = Some ''Bar'',
        webSocketDebuggerUrl = Some ''ws://b''\<rparr>"
  using pickTarget_first_survivor
    [of "[\<lparr>tid = Some ''A'', ttype = Some ''page'', url = Some ''http://x'', title = Some ''Foo'',
           webSocketDebuggerUrl = Some ''ws://a''\<rparr>,
         \<lparr>tid = Some ''B'', ttype = Some ''page'', url = Some ''http://y'', title = Some ''Bar'',
           webSocketDebuggerUrl = Some ''ws://b''\<rparr>]"
        "\<lparr>target = None, urlContains = Some ''y'', titleContains = None\<rparr>"]
  by (simp add: pickTarget_def sublist_code)

text \<open>
  Claim C7, as amended. On a non-empty target list and flags whose target id is a
  non-empty string, \<open>pickTarget\<close> returns the first target in the list whose id equals it
  (the only one when ids are unique), and fails with the message for an unknown target id
  when no target has that id. The url and title flags play no part: any values for them
  give the same result.
\<close>

theorem pickTarget_exact_id:
  assumes "targets \<noteq> []" and "truthy_str (target fl)"
  shows "(case pickTarget targets fl of
            Inr t \<Rightarrow> \<exists>i<length targets. targets ! i = t \<and> tid t = target fl \<and>
                       (\<forall>j<i. tid (targets ! j) \<noteq> target fl)
          | Inl e \<Rightarrow> e = Error (''Target id not found: '' @ str_or_empty (target fl)) \<and>
                       (\<forall>t\<in>set targets. tid t \<noteq> target fl)) \<and>
         pickTarget targets (fl\<lparr>urlContains := u, titleContains := v\<rparr>) = pickTarget targets fl"
proof -
  have same: "pickTarget targets (fl\<lparr>urlContains := u, titleContains := v\<rparr>) =
              pickTarget targets fl"
    using assms by (simp add: pickTarget_def split: option.splits)
  show ?thesis
  proof (cases "find (\<lambda>t. tid t = target fl) targets")
    case None
    then have "\<forall>t\<in>set targets. tid t \<noteq> target fl"
      by (simp add: find_None_iff)
    with None assms same show ?thesis
      by (simp add: pickTarget_def)
  next
    case (Some t)
    then obtain i where "i < length targets" "targets ! i = t" "tid t = target fl"
      "\<forall>j<i. tid (targets ! j) \<noteq> target fl"
      by (auto simp: find_Some_iff)
    with Some assms same show ?thesis
      by (auto simp: pickTarget_def)
  qed
qed

text \<open>Target \<open>B\<close> is selected by id although both filters only match target \<open>A\<close>.\<close>

theorem pickTarget_exact_id_witness:
  "[\<lparr>tid = Some ''A'', ttype = Some ''page'', url = Some ''http://x'', title = Some ''Foo'',
      webSocketDebuggerUrl = Some ''ws://a''\<rparr>,
    \<lparr>tid = Some ''B'', ttype = Some ''page'', url = Some ''http://y'', title = Some ''Bar'',
      webSocketDebuggerUrl = Some ''ws://b''\<rparr>] \<noteq> [] \<and>
   truthy_str (target \<lparr>target = Some ''B'', urlContains = None, titleContains = None\<rparr>) \<and>
   pickTarget
     [\<lparr>tid = Some ''A'', ttype = Some ''page'', url = Some ''http://x'', title = Some ''Foo'',
        webSocketDebuggerUrl = Some ''ws://a''\<rparr>,
      \<lparr>tid = Some ''B'', ttype = Some ''page'', url = Some ''http://y'', title = Some ''Bar'',
        webSocketDebuggerUrl = Some ''ws://b''\<rparr>]
     \<lparr>target = Some ''B'', urlContains = Some ''x'', titleContains = Some ''Foo''\<rparr> =
   Inr \<lparr>tid = Some ''B'', ttype = Some ''page'', url = Some ''http://y'', title = Some ''Bar'',
        webSocketDebuggerUrl = Some ''ws://b''\<rparr>"
  using pickTarget_exact_id
    [of "[\<lparr>tid = Some ''A'', ttype = Some ''page'', url = Some ''http://x'', title = Some ''Foo'',
           webSocketDebuggerUrl = Some ''ws://a''\<rparr>,
         \<lparr>tid = Some ''B'', ttype = Some ''page'', url = Some ''http://y'', title = Some ''Bar'',
           webSocketDebuggerUrl = Some ''ws://b''\<rparr>]"
        "\<lparr>target = Some ''B'', urlContains = None, titleContains = None\<rparr>"
        "Some ''x''" "Some ''Foo''"]
  by (simp add: pickTarget_def)

text \<open>
  Claim C7 as stated fails on the empty list: the test for an empty list comes first, so
  the failure there is the one for no targets, not the one for an unknown id. It also
  fails for a target id given as the empty string, which the truthiness test treats as
  not given: the selection goes through the filters and returns the first target.
\<close>

theorem pickTarget_exact_id_counterexample:
  "pickTarget [] \<lparr>target = Some ''A'', urlContains = None, titleContains = None\<rparr> =
     Inl (Error ''No page targets found'') \<and>
   pickTarget [] \<lparr>target = Some ''A'', urlContains = None, titleContains = None\<rparr> \<noteq>
     Inl (Error ''Target id not found: A'') \<and>
   pickTarget
     [\<lparr>tid = Some ''A'', ttype = Some ''page'', url = Some ''http://x'', title = Some ''Foo'',
        webSocketDebuggerUrl = Some ''ws://a''\<rparr>]
     \<lparr>target = Some [], urlContains = None, titleContains = None\<rparr> =
   Inr \<lparr>tid = Some ''A'', ttype = Some ''page'', url = Some ''http://x'', title = Some ''Foo'',
        webSocketDebuggerUrl = Some ''ws://a''\<rparr>"
  by (simp add: pickTarget_def)

text \<open>
  Claim C8. On the empty list \<open>pickTarget\<close> fails with the message for no targets,
  whatever the flags. On a non-empty list whose targets are all eliminated by the
  substring filters it fails with the message for no match; the filters are the ones of
  the branch without a target id, the only place where they are applied.
\<close>

theorem pickTarget_failures:
  "pickTarget [] fl = Inl (Error ''No page targets found'') \<and>
   (targets \<noteq> [] \<longrightarrow> \<not> truthy_str (target fl) \<longrightarrow>
    (\<forall>t\<in>set targets. \<not> spec_survives fl t) \<longrightarrow>
    pickTarget targets fl = Inl (Error ''No targets matched the provided filters''))"
proof -
  have "pickTarget [] fl = Inl (Error ''No page targets found'')"
    by (simp add: pickTarget_def)
  moreover have "pickTarget targets fl = Inl (Error ''No targets matched the provided filters'')"
    if "targets \<noteq> []" "\<not> truthy_str (target fl)" "\<forall>t\<in>set targets. \<not> spec_survives fl t"
  proof -
    from that(3) have "filter (spec_survives fl) targets = []"
      by (simp add: filter_empty_conv)
    then show ?thesis
      by (simp add: pickTarget_filter_branch[OF that(1,2)])
  qed
  ultimately show ?thesis by blast
qed

text \<open>The title filter \<open>foo\<close> eliminates the only target, whose title is \<open>Foo\<close>.\<close>

theorem pickTarget_failures_witness:
  "pickTarget [] \<lparr>target = None, urlContains = Some ''x'', titleContains = Some ''foo''\<rparr> =
     Inl (Error ''No page targets found'') \<and>
   [\<lparr>tid = Some ''A'', ttype = Some ''page'', url = Some ''http://x'', title = Some ''Foo'',
      webSocketDebuggerUrl = Some ''ws://a''\<rparr>] \<noteq> [] \<and>
   \<not> truthy_str (target \<lparr>target = None, urlContains = Some ''x'', titleContains = Some ''foo''\<rparr>) \<and>
   \<not> spec_survives \<lparr>target = None, urlContains = Some ''x'', titleContains = Some ''foo''\<rparr>
       \<lparr>tid = Some ''A'', ttype = Some ''page'', url = Some ''http://x'',
        title = Some ''Foo'', webSocketDebuggerUrl = Some ''ws://a''\<rparr> \<and>
   pickTarget
     [\<lparr>tid = Some ''A'', ttype = Some ''page'', url = Some ''http://x'', title = Some ''Foo'',
        webSocketDebuggerUrl = Some ''ws://a''\<rparr>]
     \<lparr>target = None, urlContains = Some ''x'', titleContains = Some ''foo''\<rparr> =
   Inl (Error ''No targets matched the provided filters'')"
proof -
  have h: "\<forall>t\<in>set [\<lparr>tid = Some ''A'', ttype = Some ''page'', url = Some ''http://x'',
                title = Some ''Foo'', webSocketDebuggerUrl = Some ''ws://a''\<rparr>].
      \<not> spec_survives \<lparr>target = None, urlContains = Some ''x'', titleContains = Some ''foo''\<rparr> t"
    by (simp add: spec_survives_def sublist_code)
  show ?thesis
    using h pickTarget_failures
      [of "\<lparr>target = None, urlContains = Some ''x'', titleContains = Some ''foo''\<rparr>"
          "[\<lparr>tid = Some ''A'', ttype = Some ''page'', url = Some ''http://x'', title = Some ''Foo'',
             webSocketDebuggerUrl = Some ''ws://a''\<rparr>]"]
    by (simp add: pickTarget_def)
qed

section \<open>Properties of the message and close listeners\<close>

lemma settle_fields [simp]:
  "wsUrl (settle s p x) = wsUrl s"
  "ws (settle s p x) = ws s"
  "this_id (settle s p x) = this_id s"
  "pending (settle s p x) = pending s"
  "eventHandlers (settle s p x) = eventHandlers s"
  "wire (settle s p x) = wire s"
  "invoked (settle s p x) = invoked s"
  "length (promises (settle s p x)) = length (promises s)"
  by (simp_all add: settle_def)

lemma settle_nth:
  "q < length (promises s) \<Longrightarrow>
   promises (settle s p x) ! q =
     (if q = p \<and> promises s ! p = Unsettled then x else promises s ! q)"
  by (simp add: settle_def nth_list_update)

lemma invoke_fields [simp]:
  "ws (invoke s h v) = ws s"
  "this_id (invoke s h v) = this_id s"
  "pending (invoke s h v) = pending s"
  "eventHandlers (invoke s h v) = eventHandlers s"
  "promises (invoke s h v) = promises s"
  "wire (invoke s h v) = wire s"
  by (simp_all add: invoke_def)

lemma fold_invoke_invoked:
  "invoked (fold (\<lambda>h s. invoke s h v) hs s) = invoked s @ map (\<lambda>h. (h, v)) hs"
  by (induction hs arbitrary: s) (simp_all add: invoke_def)

lemma truthy_id_not_null: "truthy (get_prop msg k) \<Longrightarrow> msg \<noteq> JNull"
  by (cases msg) simp_all

lemma on_message_not_null:
  "msg \<noteq> JNull \<Longrightarrow>
   on_message B s (Some msg) =
     (if truthy (get_prop msg ''id'') then
        (case pending_get (pending s) (get_prop msg ''id'') of
           None \<Rightarrow> Inr s
         | Some cb \<Rightarrow>
             let s = s\<lparr>pending := pending_delete (pending s) (get_prop msg ''id'')\<rparr>
             in (case get_prop msg ''error'' of
                   Some err \<Rightarrow>
                     if truthy (Some err)
                     then Inr (reject s cb (Error (error_message B err)))
                     else Inr (resolve s cb (or_empty_object (get_prop msg ''result'')))
                 | None \<Rightarrow>
                     Inr (resolve s cb (or_empty_object (get_prop msg ''result'')))))
      else if truthy (get_prop msg ''method'') then
        (case handlers_get (eventHandlers s) (get_prop msg ''method'') of
           None \<Rightarrow> Inr s
         | Some handlers \<Rightarrow>
             Inr (fold (\<lambda>h s. invoke s h (or_empty_object (get_prop msg ''params'')))
                    handlers s))
      else Inr s)"
  by (cases msg; hypsubst; simp add: on_message_def)

text \<open>
  Claim C10. The listener tests \<open>msg.id\<close> before \<open>msg.method\<close>: a frame whose id is
  truthy is handled as a response only. Whatever else it carries, a method name with
  registered handlers included, and whether or not its id finds a pending call, the
  listener returns normally, no event handler is invoked and the handler table is unchanged.
\<close>

theorem response_frame_skips_handlers:
  assumes "truthy (get_prop msg ''id'')"
  shows "\<exists>s'. on_message B s (Some msg) = Inr s' \<and> invoked s' = invoked s \<and>
              eventHandlers s' = eventHandlers s"
  using assms truthy_id_not_null[OF assms]
  by (auto simp: on_message_not_null Let_def resolve_def reject_def
           split: option.splits)

text \<open>
  A frame with id 5 and method \<open>M\<close>, a handler registered for \<open>M\<close>, no pending call:
  the handler is not invoked and the state is unchanged.
\<close>

theorem response_frame_skips_handlers_witness:
  "truthy (get_prop (JObj [(''id'', JNum 5), (''method'', JStr ''M'')]) ''id'') \<and>
   on_message \<lparr>stringify = (\<lambda>_. []), toString = (\<lambda>_. [])\<rparr>
     (on_method (new_client None []) ''M'' (7::nat))
     (Some (JObj [(''id'', JNum 5), (''method'', JStr ''M'')])) =
   Inr (on_method (new_client None []) ''M'' 7) \<and>
   invoked (on_method (new_client None []) ''M'' (7::nat)) = [] \<and>
   eventHandlers (on_method (new_client None []) ''M'' (7::nat)) = [(''M'', [7])]"
  using response_frame_skips_handlers
    [of "JObj [(''id'', JNum 5), (''method'', JStr ''M'')]"
        "\<lparr>stringify = (\<lambda>_. []), toString = (\<lambda>_. [])\<rparr>"
        "on_method (new_client None []) ''M'' (7::nat)"]
  by (simp add: on_message_def on_method_def new_client_def pending_get_def)

lemma pending_key_None_get [simp]: "pending_key k = None \<Longrightarrow> pending_get m k = None"
  by (simp add: pending_get_def)

text \<open>
  Claim C4, as amended. A frame whose id is truthy and finds no entry in the pending map
  is dropped: the listener returns normally and the state is the one before, so no
  promise is settled and no handler invoked. The same holds for a frame other than
  \<open>null\<close> without a truthy id whose method has no registered handlers.
\<close>

theorem unmatched_frames_dropped:
  "(truthy (get_prop msg ''id'') \<and> pending_get (pending s) (get_prop msg ''id'') = None
      \<longrightarrow> on_message B s (Some msg) = Inr s) \<and>
   (msg \<noteq> JNull \<and> \<not> truthy (get_prop msg ''id'') \<and>
    handlers_get (eventHandlers s) (get_prop msg ''method'') = None
      \<longrightarrow> on_message B s (Some msg) = Inr s)"
proof (intro conjI impI)
  assume a: "truthy (get_prop msg ''id'') \<and>
             pending_get (pending s) (get_prop msg ''id'') = None"
  then have "msg \<noteq> JNull" by (auto dest: truthy_id_not_null)
  with a show "on_message B s (Some msg) = Inr s"
    by (simp add: on_message_not_null)
next
  assume "msg \<noteq> JNull \<and> \<not> truthy (get_prop msg ''id'') \<and>
          handlers_get (eventHandlers s) (get_prop msg ''method'') = None"
  then show "on_message B s (Some msg) = Inr s"
    by (simp add: on_message_not_null)
qed

text \<open>
  Scenario C of the specification: the call is sent with id 1, the stray frame with id 99
  leaves the state as it was, and the response that follows fulfils the call's promise
  with its own result.
\<close>

theorem unmatched_frames_dropped_witness:
  "truthy (get_prop (JObj [(''id'', JNum 99), (''result'', JObj [])]) ''id'') \<and>
   pending_get
     (pending (snd (send ((new_client None [])\<lparr>ws := Some 1\<rparr>) ''Runtime.evaluate'' None None)))
     (get_prop (JObj [(''id'', JNum 99), (''result'', JObj [])]) ''id'') = None \<and>
   on_message \<lparr>stringify = (\<lambda>_. []), toString = (\<lambda>_. [])\<rparr>
     (snd (send ((new_client None [])\<lparr>ws := Some 1\<rparr>) ''Runtime.evaluate'' None None))
     (Some (JObj [(''id'', JNum 99), (''result'', JObj [])])) =
   Inr (snd (send ((new_client None [] :: nat client)\<lparr>ws := Some 1\<rparr>)
               ''Runtime.evaluate'' None None)) \<and>
   map_sum id promises
     (run \<lparr>stringify = (\<lambda>_. []), toString = (\<lambda>_. [])\<rparr>
        ((new_client None [] :: nat client)\<lparr>ws := Some 1\<rparr>)
        [Send ''Runtime.evaluate'' None None,
         Message (Some (JObj [(''id'', JNum 99), (''result'', JObj [])])),
         Message (Some (JObj [(''id'', JNum 1), (''result'', JObj [(''value'', JNum 42)])]))]) =
   Inr [Fulfilled (JObj [(''value'', JNum 42)])]"
  using unmatched_frames_dropped
    [of "JObj [(''id'', JNum 99), (''result'', JObj [])]"
        "snd (send ((new_client None [] :: nat client)\<lparr>ws := Some 1\<rparr>)
               ''Runtime.evaluate'' None None)"
        "\<lparr>stringify = (\<lambda>_. []), toString = (\<lambda>_. [])\<rparr>"]
  by (simp add: on_message_def send_def new_client_def pending_get_def pending_delete_def
        pre_increment_def resolve_def settle_def Let_def)

text \<open>
  Claim C4 as stated fails for an id that is not truthy: the frame with id 0 and method
  \<open>M\<close> finds no pending entry, yet it is not dropped; the test \<open>if (msg.id)\<close> sends it to
  the event branch, and the handler registered for \<open>M\<close> is invoked.
\<close>

theorem unmatched_frames_dropped_counterexample:
  "pending_get (pending (on_method (new_client None []) ''M'' (7::nat)))
     (get_prop (JObj [(''id'', JNum 0), (''method'', JStr ''M'')]) ''id'') = None \<and>
   on_message \<lparr>stringify = (\<lambda>_. []), toString = (\<lambda>_. [])\<rparr>
     (on_method (new_client None []) ''M'' (7::nat))
     (Some (JObj [(''id'', JNum 0), (''method'', JStr ''M'')])) \<noteq>
   Inr (on_method (new_client None []) ''M'' 7) \<and>
   map_sum id invoked
     (on_message \<lparr>stringify = (\<lambda>_. []), toString = (\<lambda>_. [])\<rparr>
        (on_method (new_client None []) ''M'' (7::nat))
        (Some (JObj [(''id'', JNum 0), (''method'', JStr ''M'')]))) =
   Inr [(7, JObj [])]"
  by (simp add: on_message_def on_method_def new_client_def pending_get_def invoke_def)

lemma pending_get_delete [simp]: "pending_get (pending_delete m k) k = None"
  by (cases "pending_key k") (simp_all add: pending_get_def pending_delete_def delete_conv)









lemma fold_reject_fields [simp]:
  "length (promises (fold (\<lambda>(_, cb) s. reject s cb e) ps s)) = length (promises s)"
  "this_id (fold (\<lambda>(_, cb) s. reject s cb e) ps s) = this_id s"
  "ws (fold (\<lambda>(_, cb) s. reject s cb e) ps s) = ws s"
  "eventHandlers (fold (\<lambda>(_, cb) s. reject s cb e) ps s) = eventHandlers s"
  "invoked (fold (\<lambda>(_, cb) s. reject s cb e) ps s) = invoked s"
  "wire (fold (\<lambda>(_, cb) s. reject s cb e) ps s) = wire s"
  by (induction ps arbitrary: s; simp add: reject_def split: prod.splits)+

lemma fold_reject_nth:
  "q < length (promises s) \<Longrightarrow>
   promises (fold (\<lambda>(_, cb) s. reject s cb e) ps s) ! q =
     (if q \<in> snd ` set ps \<and> promises s ! q = Unsettled then Rejected e else promises s ! q)"
proof (induction ps arbitrary: s)
  case Nil
  then show ?case by simp
next
  case (Cons kp ps)
  obtain k p where kp: "kp = (k, p)" by (cases kp)
  have "q < length (promises (reject s p e))"
    using Cons.prems by (simp add: reject_def)
  from Cons.IH[OF this] Cons.prems show ?case
    by (auto simp: kp reject_def settle_nth)
qed

text \<open>
  Claim C2. The \<open>close\<close> listener leaves the pending map empty and rejects the promise of
  every pending call that is still outstanding with the error \<open>WebSocket closed\<close> (the
  specification's \<open>ConnectionError\<close> for a closed connection); promises that are settled
  or belong to no pending call are left as they are, and no promise is added or removed.
\<close>

theorem close_fails_all_pending:
  "pending (on_close s) = [] \<and>
   length (promises (on_close s)) = length (promises s) \<and>
   (\<forall>(k, p)\<in>set (pending s). p < length (promises s) \<and> promises s ! p = Unsettled \<longrightarrow>
      promises (on_close s) ! p = Rejected (Error ''WebSocket closed'')) \<and>
   (\<forall>q<length (promises s). q \<notin> snd ` set (pending s) \<or> promises s ! q \<noteq> Unsettled \<longrightarrow>
      promises (on_close s) ! q = promises s ! q)"
proof (intro conjI)
  show "pending (on_close s) = []"
    by (simp add: on_close_def)
  show "length (promises (on_close s)) = length (promises s)"
    by (simp add: on_close_def)
  show "\<forall>(k, p)\<in>set (pending s). p < length (promises s) \<and> promises s ! p = Unsettled \<longrightarrow>
      promises (on_close s) ! p = Rejected (Error ''WebSocket closed'')"
    by (auto simp: on_close_def fold_reject_nth image_iff intro!: bexI)
  show "\<forall>q<length (promises s). q \<notin> snd ` set (pending s) \<or> promises s ! q \<noteq> Unsettled \<longrightarrow>
      promises (on_close s) ! q = promises s ! q"
    by (simp add: on_close_def fold_reject_nth)
qed

text \<open>Two calls outstanding: both are rejected and the map is empty.\<close>

theorem close_fails_all_pending_witness:
  "pending (snd (send (snd (send ((new_client None [] :: nat client)\<lparr>ws := Some 1\<rparr>)
                              ''Page.enable'' None None)) ''Runtime.enable'' None None)) =
     [(1, 0), (2, 1)] \<and>
   promises (snd (send (snd (send ((new_client None [] :: nat client)\<lparr>ws := Some 1\<rparr>)
                              ''Page.enable'' None None)) ''Runtime.enable'' None None)) =
     [Unsettled, Unsettled] \<and>
   pending (on_close (snd (send (snd (send ((new_client None [] :: nat client)\<lparr>ws := Some 1\<rparr>)
                              ''Page.enable'' None None)) ''Runtime.enable'' None None))) = [] \<and>
   promises (on_close (snd (send (snd (send ((new_client None [] :: nat client)\<lparr>ws := Some 1\<rparr>)
                              ''Page.enable'' None None)) ''Runtime.enable'' None None))) =
     [Rejected (Error ''WebSocket closed''), Rejected (Error ''WebSocket closed'')]"
  using close_fails_all_pending
    [of "snd (send (snd (send ((new_client None [] :: nat client)\<lparr>ws := Some 1\<rparr>)
                              ''Page.enable'' None None)) ''Runtime.enable'' None None)"]
  by (simp add: on_close_def send_def new_client_def pre_increment_def reject_def settle_def
        Let_def)

section \<open>Properties of the session\<close>

lemma withClient_connected:
  assumes "listed E = Returned targets" and "pickTarget targets fl = Inr t"
    and "connected E = Returned ()"
  shows "withClient E fl =
           after (NewClient (webSocketDebuggerUrl t))
             (after CallConnect (try_finally (try_block E) CallClose))"
  using assms by (simp add: withClient_def await_then_def)

text \<open>
  Claim C9. Let the target be selected and \<open>connect\<close> have succeeded, and let every await
  that the \<open>try\<close> block reaches come to an end, with a value or with an exception: the
  three enabling calls in turn, each reached when the ones before it returned, and then
  the body. Then \<open>withClient\<close> itself ends. Its outcome is the first exception among
  them, or a normal return when there is none; the calls it made on the client are the
  construction, \<open>connect\<close>, the enabling calls and the body as far as they were reached,
  and \<open>client.close()\<close> last, exactly once. \<open>close()\<close> leaves no socket open: after it
  the socket's state is never 1.
\<close>

theorem withClient_always_closes:
  assumes "listed E = Returned targets" and "pickTarget targets fl = Inr t"
    and "connected E = Returned ()"
    and "enabled E ''Page.enable'' \<noteq> Never"
    and "(\<exists>v. enabled E ''Page.enable'' = Returned v) \<longrightarrow>
         enabled E ''Runtime.enable'' \<noteq> Never"
    and "(\<exists>v. enabled E ''Page.enable'' = Returned v) \<and>
         (\<exists>v. enabled E ''Runtime.enable'' = Returned v) \<longrightarrow>
         enabled E ''Log.enable'' \<noteq> Never"
    and "(\<exists>v. enabled E ''Page.enable'' = Returned v) \<and>
         (\<exists>v. enabled E ''Runtime.enable'' = Returned v) \<and>
         (\<exists>v. enabled E ''Log.enable'' = Returned v) \<longrightarrow>
         body E \<noteq> Never"
  shows "fst (withClient E fl) \<noteq> Never \<and>
         fst (withClient E fl) =
           (case enabled E ''Page.enable'' of
              Threw e \<Rightarrow> Threw e
            | _ \<Rightarrow>
           (case enabled E ''Runtime.enable'' of
              Threw e \<Rightarrow> Threw e
            | _ \<Rightarrow>
           (case enabled E ''Log.enable'' of
              Threw e \<Rightarrow> Threw e
            | _ \<Rightarrow>
           (case body E of
              Threw e \<Rightarrow> Threw e
            | _ \<Rightarrow> Returned ())))) \<and>
         snd (withClient E fl) =
           [NewClient (webSocketDebuggerUrl t), CallConnect, CallSend ''Page.enable''] @
           (case enabled E ''Page.enable'' of
              Returned _ \<Rightarrow>
                CallSend ''Runtime.enable'' #
                (case enabled E ''Runtime.enable'' of
                   Returned _ \<Rightarrow>
                     CallSend ''Log.enable'' #
                     (case enabled E ''Log.enable'' of
                        Returned _ \<Rightarrow> [CallBody]
                      | _ \<Rightarrow> [])
                 | _ \<Rightarrow> [])
            | _ \<Rightarrow> []) @
           [CallClose] \<and>
         last (snd (withClient E fl)) = CallClose \<and>
         count_list (snd (withClient E fl)) CallClose = 1 \<and>
         (\<forall>s :: 'h client. ws (close s) \<noteq> Some 1)"
proof -
  note wc = withClient_connected[OF assms(1-3)]
  have closed: "ws (close s) \<noteq> Some 1" for s :: "'h client"
    by (simp add: close_def)
  show ?thesis
  proof (cases "enabled E ''Page.enable''")
    case Never
    with assms(4) show ?thesis by simp
  next
    case (Threw e)
    then show ?thesis
      using closed
      by (simp add: wc try_block_def after_def await_then_def try_finally_def)
  next
    case p: (Returned v1)
    show ?thesis
    proof (cases "enabled E ''Runtime.enable''")
      case Never
      with assms(5) p show ?thesis by simp
    next
      case (Threw e)
      then show ?thesis
        using closed p
        by (simp add: wc try_block_def after_def await_then_def try_finally_def)
    next
      case r: (Returned v2)
      show ?thesis
      proof (cases "enabled E ''Log.enable''")
        case Never
        with assms(6) p r show ?thesis by simp
      next
        case (Threw e)
        then show ?thesis
          using closed p r
          by (simp add: wc try_block_def after_def await_then_def try_finally_def)
      next
        case l: (Returned v3)
        show ?thesis
        proof (cases "body E")
          case Never
          with assms(7) p r l show ?thesis by simp
        next
          case (Threw e)
          then show ?thesis
            using closed p r l
            by (simp add: wc try_block_def after_def await_then_def try_finally_def)
        next
          case (Returned v4)
          then show ?thesis
            using closed p r l
            by (simp add: wc try_block_def after_def await_then_def try_finally_def)
        qed
      qed
    qed
  qed
qed

text \<open>
  A body that throws: the exception is passed on and the client has been closed. A body
  that returns: \<open>withClient\<close> returns and the client has been closed.
\<close>

theorem withClient_always_closes_witness:
  "withClient
     \<lparr>listed = Returned [\<lparr>tid = Some ''A'', ttype = Some ''page'', url = Some ''http://x'',
                           title = Some ''Foo'', webSocketDebuggerUrl = Some ''ws://a''\<rparr>],
      connected = Returned (),
      enabled = (\<lambda>_. Returned (JObj [])),
      body = Threw (Error ''click failed: not-found'')\<rparr>
     \<lparr>target = None, urlContains = None, titleContains = None\<rparr> =
   (Threw (Error ''click failed: not-found''),
    [NewClient (Some ''ws://a''), CallConnect, CallSend ''Page.enable'',
     CallSend ''Runtime.enable'', CallSend ''Log.enable'', CallBody, CallClose]) \<and>
   withClient
     \<lparr>listed = Returned [\<lparr>tid = Some ''A'', ttype = Some ''page'', url = Some ''http://x'',
                           title = Some ''Foo'', webSocketDebuggerUrl = Some ''ws://a''\<rparr>],
      connected = Returned (),
      enabled = (\<lambda>_. Returned (JObj [])),
      body = Returned ()\<rparr>
     \<lparr>target = None, urlContains = None, titleContains = None\<rparr> =
   (Returned (),
    [NewClient (Some ''ws://a''), CallConnect, CallSend ''Page.enable'',
     CallSend ''Runtime.enable'', CallSend ''Log.enable'', CallBody, CallClose]) \<and>
   ws (close ((new_client (Some ''ws://a'') [] :: nat client)\<lparr>ws := Some 1\<rparr>)) = Some 2"
  using withClient_always_closes
    [of "\<lparr>listed = Returned [\<lparr>tid = Some ''A'', ttype = Some ''page'', url = Some ''http://x'',
                           title = Some ''Foo'', webSocketDebuggerUrl = Some ''ws://a''\<rparr>],
      connected = Returned (),
      enabled = (\<lambda>_. Returned (JObj [])),
      body = Threw (Error ''click failed: not-found'')\<rparr>"
      "[\<lparr>tid = Some ''A'', ttype = Some ''page'', url = Some ''http://x'',
                           title = Some ''Foo'', webSocketDebuggerUrl = Some ''ws://a''\<rparr>]"
      "\<lparr>target = None, urlContains = None, titleContains = None\<rparr>"
      "\<lparr>tid = Some ''A'', ttype = Some ''page'', url = Some ''http://x'',
                           title = Some ''Foo'', webSocketDebuggerUrl = Some ''ws://a''\<rparr>"]
    withClient_always_closes
    [of "\<lparr>listed = Returned [\<lparr>tid = Some ''A'', ttype = Some ''page'', url = Some ''http://x'',
                           title = Some ''Foo'', webSocketDebuggerUrl = Some ''ws://a''\<rparr>],
      connected = Returned (),
      enabled = (\<lambda>_. Returned (JObj [])),
      body = Returned ()\<rparr>"
      "[\<lparr>tid = Some ''A'', ttype = Some ''page'', url = Some ''http://x'',
                           title = Some ''Foo'', webSocketDebuggerUrl = Some ''ws://a''\<rparr>]"
      "\<lparr>target = None, urlContains = None, titleContains = None\<rparr>"
      "\<lparr>tid = Some ''A'', ttype = Some ''page'', url = Some ''http://x'',
                           title = Some ''Foo'', webSocketDebuggerUrl = Some ''ws://a''\<rparr>"]
  by (simp add: withClient_def pickTarget_def await_then_def after_def try_finally_def
        try_block_def close_def new_client_def)

section \<open>Properties of runs: call ids and correlation\<close>

subsection \<open>What every run preserves\<close>

lemma pre_increment_ge: "n \<le> pre_increment n"
  by (simp add: pre_increment_def)

lemma pre_increment_lt: "n < 2 ^ 53 \<Longrightarrow> pre_increment n = Suc n"
  by (simp add: pre_increment_def)

lemma set_update_subset: "set (AList.update k v al) \<subseteq> insert (k, v) (set al)"
  by (induction al) auto

lemma distinct_snd_update:
  "v \<notin> snd ` set al \<Longrightarrow> distinct (map snd al) \<Longrightarrow> distinct (map snd (AList.update k v al))"
proof (induction al)
  case Nil
  then show ?case by simp
next
  case (Cons a al)
  have "snd a \<notin> snd ` set (AList.update k v al)"
    using Cons.prems set_update_subset[of k v al] by (auto simp: image_iff)
  with Cons show ?case by (auto simp: image_iff)
qed

lemma distinct_snd_delete:
  "distinct (map snd al) \<Longrightarrow> distinct (map snd (AList.delete k al))"
  by (simp add: AList.delete_eq distinct_map_filter)

lemma set_delete_subset: "set (AList.delete k al) \<subseteq> set al"
  by (auto simp: AList.delete_eq)

lemma wf_settle [simp]: "well_formed (settle s p x) = well_formed s"
  by (simp add: well_formed_def)

lemma wf_delete:
  "well_formed s \<Longrightarrow> well_formed (s\<lparr>pending := AList.delete k (pending s)\<rparr>)"
  using set_delete_subset[of k "pending s"]
  by (auto simp: well_formed_def distinct_delete distinct_snd_delete)

lemma wf_send: "well_formed s \<Longrightarrow> well_formed (snd (send s m ps thr))"
proof -
  assume wf: "well_formed s"
  let ?i = "pre_increment (this_id s)"
  let ?p = "length (promises s)"
  let ?t = "s\<lparr>this_id := ?i, promises := promises s @ [Unsettled],
              pending := AList.update ?i ?p (pending s)\<rparr>"
  have fresh: "?p \<notin> snd ` set (pending s)"
    using wf by (auto simp: well_formed_def)
  have "well_formed ?t"
    unfolding well_formed_def
  proof (intro conjI)
    show "distinct (map fst (pending ?t))"
      using wf by (simp add: well_formed_def distinct_update)
    show "distinct (map snd (pending ?t))"
      using wf fresh by (simp add: well_formed_def distinct_snd_update)
    show "\<forall>(k, p)\<in>set (pending ?t). k \<le> this_id ?t \<and> p < length (promises ?t)"
    proof (clarify)
      fix k p assume "(k, p) \<in> set (pending ?t)"
      then have "(k, p) = (?i, ?p) \<or> (k, p) \<in> set (pending s)"
        using set_update_subset[of ?i ?p "pending s"] by auto
      then show "k \<le> this_id ?t \<and> p < length (promises ?t)"
        using wf pre_increment_ge[of "this_id s"]
        by (auto simp: well_formed_def dest!: bspec)
    qed
    show "this_id ?t \<le> 2 ^ 53"
      using wf by (simp add: well_formed_def pre_increment_def)
  qed
  moreover have "well_formed (?t\<lparr>wire := w\<rparr>) = well_formed ?t" for w
    by (simp add: well_formed_def)
  ultimately show ?thesis
    by (simp add: send_def Let_def reject_def split: option.splits)
qed

lemma wf_fold_invoke [simp]:
  "well_formed (fold (\<lambda>h s. invoke s h v) hs s) = well_formed s"
  by (induction hs arbitrary: s) (simp_all add: well_formed_def)

lemma on_message_cases:
  assumes "on_message B s x = Inr s'"
  shows "s' = s \<or>
         (\<exists>f k p out. x = Some f \<and> pending_key (get_prop f ''id'') = Some k \<and>
            map_of (pending s) k = Some p \<and> out \<noteq> Unsettled \<and>
            s' = settle (s\<lparr>pending := AList.delete k (pending s)\<rparr>) p out) \<or>
         (\<exists>hs v. s' = fold (\<lambda>h s. invoke s h v) hs s)"
proof (cases x)
  case None
  with assms show ?thesis by (simp add: on_message_def)
next
  case (Some msg)
  show ?thesis
  proof (cases "msg = JNull")
    case True
    with Some assms show ?thesis by (simp add: on_message_def)
  next
    case False
    show ?thesis
    proof (cases "truthy (get_prop msg ''id'')")
      case no_id: False
      with assms show ?thesis
        unfolding Some on_message_not_null[OF False]
        by (auto split: if_splits option.splits)
    next
      case True
      show ?thesis
      proof (cases "pending_get (pending s) (get_prop msg ''id'')")
        case None
        with True assms show ?thesis
          unfolding Some on_message_not_null[OF False] by simp
      next
        case (Some p)
        then obtain k where k: "pending_key (get_prop msg ''id'') = Some k"
          "map_of (pending s) k = Some p"
          by (auto simp: pending_get_def split: option.splits)
        have del: "pending_delete (pending s) (get_prop msg ''id'') = AList.delete k (pending s)"
          by (simp add: pending_delete_def k(1))
        have "\<exists>out. out \<noteq> Unsettled \<and>
                s' = settle (s\<lparr>pending := AList.delete k (pending s)\<rparr>) p out"
          using assms True Some
          unfolding \<open>x = Some msg\<close> on_message_not_null[OF False] del
          by (auto simp: Let_def resolve_def reject_def split: if_splits option.splits)
        with k \<open>x = Some msg\<close> show ?thesis by blast
      qed
    qed
  qed
qed

lemma wf_on_message:
  assumes "well_formed s" and "on_message B s x = Inr s'"
  shows "well_formed s'"
  using on_message_cases[OF assms(2)] assms(1) wf_delete[OF assms(1)]
  by auto

lemma fold_invoke_this_id [simp]: "this_id (fold (\<lambda>h s. invoke s h v) hs s) = this_id s"
  by (induction hs arbitrary: s) simp_all

lemma on_message_this_id: "on_message B s x = Inr s' \<Longrightarrow> this_id s' = this_id s"
  using on_message_cases[of B s x s'] by auto

lemma fold_reject_pending [simp]:
  "pending (fold (\<lambda>(_, cb) s. reject s cb e) ps s) = pending s"
  by (induction ps arbitrary: s) (simp_all add: reject_def split: prod.splits)

lemma wf_fold_reject [simp]:
  "well_formed (fold (\<lambda>(_, cb) s. reject s cb e) ps s) = well_formed s"
  by (simp add: well_formed_def)

lemma wf_step:
  assumes "well_formed s" and "step B s e = Inr s'"
  shows "well_formed s'"
proof (cases e)
  case (Send m ps thr)
  with assms show ?thesis by (auto simp: wf_send)
next
  case (SendCallback i p err)
  with assms wf_delete[OF assms(1), of i] show ?thesis
    by (auto simp: send_callback_def reject_def split: option.splits)
next
  case (Message x)
  with assms show ?thesis by (auto intro: wf_on_message)
next
  case SocketClosed
  have "well_formed (on_close (s\<lparr>ws := Some 3\<rparr>))"
    using assms(1) by (simp add: well_formed_def on_close_def)
  with SocketClosed assms show ?thesis by auto
next
  case (On m h)
  with assms show ?thesis by (auto simp: well_formed_def on_method_def Let_def)
next
  case Connect
  with assms show ?thesis by (auto simp: well_formed_def)
next
  case SocketOpen
  with assms show ?thesis by (auto simp: well_formed_def)
next
  case Close
  have "well_formed (close s)"
    using assms(1) by (simp add: well_formed_def close_def)
  with Close assms show ?thesis by auto
qed

lemma wf_run: "run B s evs = Inr s' \<Longrightarrow> well_formed s \<Longrightarrow> well_formed s'"
proof (induction evs arbitrary: s)
  case Nil
  then show ?case by simp
next
  case (Cons e es)
  from Cons.prems(1) obtain t where t: "step B s e = Inr t" "run B t es = Inr s'"
    by (auto split: sum.splits)
  from wf_step[OF Cons.prems(2) t(1)] have "well_formed t" .
  from Cons.IH[OF t(2) this] show ?case .
qed

lemma wf_new: "well_formed (new_client u st)"
  by (simp add: well_formed_def new_client_def)



subsection \<open>The ids of successive calls\<close>

lemma send_this_id: "this_id (snd (send s m ps thr)) = pre_increment (this_id s)"
  by (simp add: send_def Let_def reject_def split: option.splits)

lemma send_pending:
  "pending (snd (send s m ps thr)) =
     AList.update (pre_increment (this_id s)) (length (promises s)) (pending s)"
  "fst (send s m ps thr) = length (promises s)"
  by (simp_all add: send_def Let_def reject_def split: option.splits)

lemma update_fresh: "k \<notin> fst ` set al \<Longrightarrow> AList.update k v al = al @ [(k, v)]"
  by (induction al) auto

lemma filter_update_new_value:
  "p \<notin> snd ` set al \<Longrightarrow> filter (\<lambda>kp. snd kp = p) (AList.update k p al) = [(k, p)]"
proof (induction al)
  case Nil
  then show ?case by simp
next
  case (Cons a al)
  then have "filter (\<lambda>kp. snd kp = p) al = []"
    by (auto simp: filter_empty_conv image_iff)
  with Cons show ?case by (auto simp: image_iff)
qed

lemma call_keys_wf:
  assumes "well_formed s"
  shows "call_keys s m ps thr = [pre_increment (this_id s)]"
proof -
  have "length (promises s) \<notin> snd ` set (pending s)"
    using assms by (auto simp: well_formed_def)
  then show ?thesis
    by (simp add: call_keys_def send_pending filter_update_new_value)
qed

lemma call_payload_ids_eq:
  "call_payload_ids s m ps thr =
     (if ws s \<noteq> None \<and> thr = None
      then [Some (JNum (of_nat (pre_increment (this_id s))))] else [])"
  by (simp add: call_payload_ids_def send_def Let_def reject_def split: option.splits)

lemma step_this_id:
  assumes "step B s e = Inr s'"
  shows "this_id s' = (if is_send e then pre_increment (this_id s) else this_id s)"
proof (cases e)
  case (Message x)
  with assms show ?thesis by (auto dest: on_message_this_id)
next
  case (SendCallback i p err)
  with assms show ?thesis
    by (auto simp: send_callback_def reject_def split: option.splits)
next
  case SocketClosed
  with assms show ?thesis by (auto simp: on_close_def)
next
  case (Send m ps thr)
  with assms show ?thesis by (auto simp: send_this_id)
next
  case (On m h)
  with assms show ?thesis by (auto simp: on_method_def Let_def)
next
  case Close
  with assms show ?thesis by (auto simp: close_def)
qed (use assms in auto)

lemma run_this_id:
  "run B s evs = Inr t \<Longrightarrow> this_id s + length (filter is_send evs) \<le> 2 ^ 53 \<Longrightarrow>
   this_id t = this_id s + length (filter is_send evs)"
proof (induction evs arbitrary: s)
  case Nil
  then show ?case by simp
next
  case (Cons e es)
  from Cons.prems(1) obtain s1 where s1: "step B s e = Inr s1" "run B s1 es = Inr t"
    by (auto split: sum.splits)
  have id1: "this_id s1 = this_id s + length (filter is_send [e])"
    using step_this_id[OF s1(1)] Cons.prems(2) by (auto simp: pre_increment_lt)
  with Cons.prems(2) have "this_id s1 + length (filter is_send es) \<le> 2 ^ 53"
    by auto
  from Cons.IH[OF s1(2) this] id1 show ?case by auto
qed

lemma allocated_ids_upt:
  "well_formed s \<Longrightarrow> this_id s + length (filter is_send evs) \<le> 2 ^ 53 \<Longrightarrow>
   allocated_ids B s evs =
     [Suc (this_id s) ..< Suc (this_id s + length (allocated_ids B s evs))]"
proof (induction evs arbitrary: s)
  case Nil
  then show ?case by simp
next
  case (Cons e es)
  show ?case
  proof (cases "step B s e")
    case (Inl err)
    then show ?thesis by simp
  next
    case (Inr t)
    note id = step_this_id[OF Inr]
    have wft: "well_formed t"
      by (rule wf_step[OF Cons.prems(1) Inr])
    show ?thesis
    proof (cases "is_send e")
      case True
      then obtain m ps thr where e: "e = Send m ps thr" by (cases e) auto
      from True Cons.prems have lt: "this_id s < 2 ^ 53" by simp
      with id True have t: "this_id t = Suc (this_id s)"
        by (simp add: pre_increment_lt)
      with Cons.prems True have "this_id t + length (filter is_send es) \<le> 2 ^ 53"
        by simp
      from Cons.IH[OF wft this] have
        "allocated_ids B t es =
           [Suc (this_id t) ..< Suc (this_id t + length (allocated_ids B t es))]" .
      moreover have
        "[Suc (this_id s) ..< Suc (this_id s + Suc (length (allocated_ids B t es)))] =
         Suc (this_id s) #
           [Suc (Suc (this_id s)) ..< Suc (Suc (this_id s) + length (allocated_ids B t es))]"
        by (simp add: upt_conv_Cons del: upt_Suc)
      ultimately have "Suc (this_id s) # allocated_ids B t es =
           [Suc (this_id s) ..< Suc (this_id s + Suc (length (allocated_ids B t es)))]"
        unfolding t by (simp del: upt_Suc)
      moreover have "allocated_ids B s (e # es) = Suc (this_id s) # allocated_ids B t es"
        using Inr e lt by (simp add: call_keys_wf[OF Cons.prems(1)] pre_increment_lt)
      ultimately show ?thesis by (simp del: upt_Suc)
    next
      case False
      with id have t: "this_id t = this_id s" by simp
      with Cons.prems False have "this_id t + length (filter is_send es) \<le> 2 ^ 53"
        by simp
      moreover from False have "(case e of Send m ps thr \<Rightarrow> call_keys s m ps thr | _ \<Rightarrow> []) = []"
        by (cases e) auto
      ultimately show ?thesis
        using Cons.IH[OF wft] Inr t by (simp del: upt_Suc)
    qed
  qed
qed

text \<open>
  Claim C3. On a client as the constructor leaves it, and through any run of method calls
  and socket callbacks with at most \<open>2 ^ 53\<close> calls to \<open>send\<close> (the range in which the
  counter, a JavaScript number, counts exactly):
  \<^item> the ids under which the calls to \<open>send\<close> store their promises are 1, 2, 3, ... in
    the order of the calls, a strictly increasing sequence, and the first call of a new
    client is stored under id 1;
  \<^item> the call to \<open>send\<close> that comes after \<open>n\<close> earlier ones stores its promise under the
    key \<open>n + 1\<close> and no other, hands the socket a payload with that same id (when there is
    a socket and its \<open>send\<close> does not throw; nothing otherwise), finds that key unused, and
    leaves every entry that was pending in place;
  \<^item> at every moment of the run the keys of the pending map are distinct and so are its
    promises: no two pending calls share an id.
\<close>

theorem ids_strictly_increasing:
  fixes evs :: "'h event list"
  assumes "length (filter is_send evs) \<le> 2 ^ 53"
  shows "allocated_ids B (new_client u st) evs =
           [1 ..< Suc (length (allocated_ids B (new_client u st) evs))] \<and>
         sorted_wrt (<) (allocated_ids B (new_client u st) evs) \<and>
         call_keys (new_client u st :: 'h client) m ps thr = [1] \<and>
         (\<forall>pre m ps thr post s.
            evs = pre @ Send m ps thr # post \<and> run B (new_client u st) pre = Inr s \<longrightarrow>
            call_keys s m ps thr = [Suc (length (filter is_send pre))] \<and>
            call_payload_ids s m ps thr =
              (if ws s \<noteq> None \<and> thr = None
               then [Some (JNum (of_nat (Suc (length (filter is_send pre)))))] else []) \<and>
            Suc (length (filter is_send pre)) \<notin> fst ` set (pending s) \<and>
            set (pending s) \<subseteq> set (pending (snd (send s m ps thr)))) \<and>
         (\<forall>n s. run B (new_client u st) (take n evs) = Inr s \<longrightarrow>
            distinct (map fst (pending s)) \<and> distinct (map snd (pending s)))"
proof -
  let ?s0 = "new_client u st :: 'h client"
  have "this_id ?s0 + length (filter is_send evs) \<le> 2 ^ 53"
    using assms by (simp add: new_client_def)
  from allocated_ids_upt[OF wf_new this, of B]
  have upt: "allocated_ids B ?s0 evs = [1 ..< Suc (length (allocated_ids B ?s0 evs))]"
    by (simp add: new_client_def)
  have "sorted_wrt (<) [1 ..< Suc (length (allocated_ids B ?s0 evs))]"
    by (rule sorted_wrt_upt)
  with upt have sorted: "sorted_wrt (<) (allocated_ids B ?s0 evs)"
    by simp
  have first: "call_keys ?s0 m ps thr = [1]"
    using call_keys_wf[OF wf_new, of u st m ps thr]
    by (simp add: new_client_def pre_increment_def)
  have each: "call_keys s m ps thr = [Suc (length (filter is_send pre))] \<and>
            call_payload_ids s m ps thr =
              (if ws s \<noteq> None \<and> thr = None
               then [Some (JNum (of_nat (Suc (length (filter is_send pre)))))] else []) \<and>
            Suc (length (filter is_send pre)) \<notin> fst ` set (pending s) \<and>
            set (pending s) \<subseteq> set (pending (snd (send s m ps thr)))"
    if evs: "evs = pre @ Send m ps thr # post" and run: "run B ?s0 pre = Inr s"
    for pre m ps thr post s
  proof -
    have wf: "well_formed s"
      by (rule wf_run[OF run wf_new])
    from assms evs have le: "this_id ?s0 + length (filter is_send pre) \<le> 2 ^ 53"
      and lt: "length (filter is_send pre) < 2 ^ 53"
      by (simp_all add: new_client_def)
    from run_this_id[OF run le] have cnt: "this_id s = length (filter is_send pre)"
      by (simp add: new_client_def)
    with lt have inc: "pre_increment (this_id s) = Suc (length (filter is_send pre))"
      by (simp add: pre_increment_lt)
    have fresh: "Suc (length (filter is_send pre)) \<notin> fst ` set (pending s)"
      using wf cnt by (auto simp: well_formed_def)
    have "set (pending s) \<subseteq> set (pending (snd (send s m ps thr)))"
      using fresh by (auto simp: send_pending inc update_fresh)
    with fresh show ?thesis
      by (simp add: call_keys_wf[OF wf] call_payload_ids_eq inc)
  qed
  have moment: "distinct (map fst (pending s)) \<and> distinct (map snd (pending s))"
    if "run B ?s0 (take n evs) = Inr s" for n s
    using wf_run[OF that wf_new] by (simp add: well_formed_def)
  have calls: "\<forall>pre m ps thr post s.
            evs = pre @ Send m ps thr # post \<and> run B ?s0 pre = Inr s \<longrightarrow>
            call_keys s m ps thr = [Suc (length (filter is_send pre))] \<and>
            call_payload_ids s m ps thr =
              (if ws s \<noteq> None \<and> thr = None
               then [Some (JNum (of_nat (Suc (length (filter is_send pre)))))] else []) \<and>
            Suc (length (filter is_send pre)) \<notin> fst ` set (pending s) \<and>
            set (pending s) \<subseteq> set (pending (snd (send s m ps thr)))"
    using each by blast
  have moments: "\<forall>n s. run B ?s0 (take n evs) = Inr s \<longrightarrow>
            distinct (map fst (pending s)) \<and> distinct (map snd (pending s))"
    using moment by blast
  show ?thesis
    by (intro conjI) (rule upt sorted first calls moments)+
qed

text \<open>
  Three calls with a response between the second and the third: the keys are 1, 2, 3, the
  third call stores its promise under key 3 and sends a payload with id 3, and the calls
  with ids 2 and 3 remain pending.
\<close>

theorem ids_strictly_increasing_witness:
  "length (filter is_send
     [Connect, SocketOpen, Send ''Page.enable'' None None, Send ''Runtime.enable'' None None,
      Message (Some (JObj [(''id'', JNum 1), (''result'', JObj [])])),
      Send ''Log.enable'' None None :: nat event]) \<le> 2 ^ 53 \<and>
   allocated_ids \<lparr>stringify = (\<lambda>_. []), toString = (\<lambda>_. [])\<rparr> (new_client None [])
     [Connect, SocketOpen, Send ''Page.enable'' None None, Send ''Runtime.enable'' None None,
      Message (Some (JObj [(''id'', JNum 1), (''result'', JObj [])])),
      Send ''Log.enable'' None None :: nat event] = [1, 2, 3] \<and>
   map_sum id (\<lambda>s. (call_keys s ''Log.enable'' None None,
                      call_payload_ids s ''Log.enable'' None None))
     (run \<lparr>stringify = (\<lambda>_. []), toString = (\<lambda>_. [])\<rparr> (new_client None [] :: nat client)
        [Connect, SocketOpen, Send ''Page.enable'' None None, Send ''Runtime.enable'' None None,
         Message (Some (JObj [(''id'', JNum 1), (''result'', JObj [])]))]) =
     Inr ([3], [Some (JNum 3)]) \<and>
   map_sum id pending
     (run \<lparr>stringify = (\<lambda>_. []), toString = (\<lambda>_. [])\<rparr> (new_client None [])
        [Connect, SocketOpen, Send ''Page.enable'' None None, Send ''Runtime.enable'' None None,
         Message (Some (JObj [(''id'', JNum 1), (''result'', JObj [])])),
         Send ''Log.enable'' None None :: nat event]) = Inr [(2, 1), (3, 2)]"
  using ids_strictly_increasing
    [of "[Connect, SocketOpen, Send ''Page.enable'' None None, Send ''Runtime.enable'' None None,
          Message (Some (JObj [(''id'', JNum 1), (''result'', JObj [])])),
          Send ''Log.enable'' None None :: nat event]"
        "\<lparr>stringify = (\<lambda>_. []), toString = (\<lambda>_. [])\<rparr>" None "[]"]
  by (simp add: on_message_def send_def new_client_def pending_get_def pending_delete_def
        pre_increment_def resolve_def settle_def Let_def call_keys_def call_payload_ids_def)

subsection \<open>Responses in any order\<close>



lemma pending_key_of_nat [simp]: "pending_key (Some (JNum (of_nat n))) = Some n"
  by simp












end
